theory Spec2Isabelle
  imports Main "HOL-Library.Word" "HOL-Library.AList"
begin

section \<open>Machine integers, bytes and errors\<close>

text \<open>
  Go's \<open>uint64\<close>, \<open>uint32\<close> and \<open>byte\<close> are words: \<open>+\<close>, \<open>-\<close> and \<open>*\<close>
  wrap around as Go's do. An \<open>int64\<close> is kept as a 64-bit word too and read with
  \<open>sint\<close> where its sign matters; the conversion \<open>int64(x)\<close> of a \<open>uint64\<close> is then the
  identity on the bits and \<open>uint32(x)\<close> is \<open>ucast\<close>.
\<close>

type_synonym byte = "8 word"
type_synonym u32 = "32 word"
type_synonym u64 = "64 word"

text \<open>
  Every error return and every run-time panic of the package is a value.
  \<open>EOF\<close> is \<open>io.EOF\<close>; \<open>OffsetOutOfRange\<close> is the error \<open>Log.Read\<close> builds with
  \<open>fmt.Errorf\<close>; \<open>NegativeOffset\<close> and \<open>ErrInvalid\<close> are what \<open>os\<close> reports for a
  negative offset or size and for a mapping of length 0; \<open>ErrNotExist\<close> is a missing
  file; \<open>CodecError\<close> is a failure of the record serializer. \<open>PanicIndex\<close>,
  \<open>PanicSlice\<close> and \<open>PanicNil\<close> are the panics of an index out of range, of slice
  bounds out of range and of a nil pointer. \<open>ErrClosed\<close> and \<open>Fault\<close> mark the edge of
  the model: an operation on a closed file, and an access to a mapping beyond the end
  of its file. What the process really does there depends on the operating system
  (a buffered write to a closed file may still succeed, a mapping outlives its file),
  so the model only says that such a step is not a normal one.
\<close>

datatype error =
    EOF
  | OffsetOutOfRange u64
  | NegativeOffset
  | ErrInvalid
  | ErrNotExist
  | ErrClosed
  | CodecError
  | PanicIndex
  | PanicSlice
  | PanicNil
  | Fault

subsection \<open>Big-endian integers (\<open>encoding/binary\<close>, \<open>enc = binary.BigEndian\<close>)\<close>

fun be_bytes :: "nat \<Rightarrow> nat \<Rightarrow> byte list" where
  "be_bytes 0 v = []"
| "be_bytes (Suc k) v = be_bytes k (v div 256) @ [of_nat (v mod 256)]"

definition be_value :: "byte list \<Rightarrow> nat" where
  "be_value bs = foldl (\<lambda>a b. a * 256 + unat b) 0 bs"

definition PutUint64 :: "u64 \<Rightarrow> byte list" where
  "PutUint64 v = be_bytes 8 (unat v)"

definition Uint64 :: "byte list \<Rightarrow> u64" where
  "Uint64 bs = of_nat (be_value bs)"

definition PutUint32 :: "u32 \<Rightarrow> byte list" where
  "PutUint32 v = be_bytes 4 (unat v)"

definition Uint32 :: "byte list \<Rightarrow> u32" where
  "Uint32 bs = of_nat (be_value bs)"

section \<open>Files\<close>

text \<open>
  The directory of a log holds the files \<open>{base}.store\<close> and \<open>{base}.index\<close>. A file
  name is the pair of the decimal base offset and the extension, so printing the name
  with \<open>fmt.Sprintf\<close> and parsing it back with \<open>strconv.ParseUint\<close> is the identity;
  files with other names are outside the model. The directory is an association list
  from names to contents, in order of creation. The file system is reliable: a write,
  a sync or a truncation of an open file does not fail.
\<close>

datatype fname = StoreFile u64 | IndexFile u64

fun base_of :: "fname \<Rightarrow> u64" where
  "base_of (StoreFile b) = b"
| "base_of (IndexFile b) = b"

type_synonym fsys = "(fname \<times> byte list) list"

text \<open>\<open>os.OpenFile\<close> with \<open>O_CREATE\<close>: an existing file keeps its content.\<close>

definition fs_create :: "fsys \<Rightarrow> fname \<Rightarrow> fsys" where
  "fs_create fs nm = (case map_of fs nm of None \<Rightarrow> AList.update nm [] fs | Some _ \<Rightarrow> fs)"

text \<open>\<open>Truncate\<close> to \<open>n\<close> bytes: cuts the file or extends it with zero bytes.\<close>

definition resize :: "nat \<Rightarrow> byte list \<Rightarrow> byte list" where
  "resize n bs = take n bs @ replicate (n - length bs) 0"

text \<open>\<open>os.Remove\<close>: fails when the file does not exist.\<close>

definition fs_remove :: "fsys \<Rightarrow> fname \<Rightarrow> error + fsys" where
  "fs_remove fs nm =
     (case map_of fs nm of None \<Rightarrow> Inl ErrNotExist | Some _ \<Rightarrow> Inr (AList.delete nm fs))"

text \<open>
  \<open>File.ReadAt(b, off)\<close> with \<open>len(b) = n\<close>: a negative offset is an error, an empty
  buffer reads nothing, and a read that the file cannot fill ends in \<open>io.EOF\<close>.
\<close>

definition ReadAt :: "byte list \<Rightarrow> nat \<Rightarrow> int \<Rightarrow> error + byte list" where
  "ReadAt f n off =
     (if off < 0 then Inl NegativeOffset
      else if n = 0 then Inr []
      else if length f < nat off + n then Inl EOF
      else Inr (take n (drop (nat off) f)))"

section \<open>The store (\<open>store.go\<close>)\<close>

text \<open>
  \<open>s_name\<close> is the embedded \<open>*os.File\<close>, \<open>s_buf\<close> the bytes the \<open>bufio.Writer\<close> holds,
  \<open>s_size\<close> the field \<open>size\<close>, \<open>s_closed\<close> whether the file has been closed. The writer
  is a buffer without a bound: \<open>bufio\<close> flushes by itself when its 4096 bytes are full,
  which moves bytes to the file earlier and is seen by no operation of this package,
  since every read flushes first.
\<close>

record store =
  s_name :: fname
  s_buf :: "byte list"
  s_size :: u64
  s_closed :: bool

definition lenWidth :: nat where
  "lenWidth = 8"

definition newStore :: "fsys \<Rightarrow> fname \<Rightarrow> error + store" where
  "newStore fs nm =
     (case map_of fs nm of
        None \<Rightarrow> Inl ErrNotExist
      | Some f \<Rightarrow> Inr \<lparr>s_name = nm, s_buf = [], s_size = of_nat (length f), s_closed = False\<rparr>)"

text \<open>\<open>store.Append\<close> returns \<open>(n, pos)\<close> and the store it leaves.\<close>

definition store_Append :: "store \<Rightarrow> byte list \<Rightarrow> error + (u64 \<times> u64 \<times> store)" where
  "store_Append s p =
     (if s_closed s then Inl ErrClosed
      else
        let pos = s_size s;
            b1 = s_buf s @ PutUint64 (of_nat (length p));
            b2 = b1 @ p;
            w = length p + lenWidth
        in Inr (of_nat w, pos, s\<lparr>s_buf := b2, s_size := s_size s + of_nat w\<rparr>))"

text \<open>\<open>buf.Flush\<close>: the buffered bytes go to the end of the file (\<open>O_APPEND\<close>).\<close>

definition store_flush :: "fsys \<Rightarrow> store \<Rightarrow> error + (fsys \<times> store)" where
  "store_flush fs s =
     (if s_closed s then Inl ErrClosed
      else case map_of fs (s_name s) of
        None \<Rightarrow> Inl ErrNotExist
      | Some f \<Rightarrow> Inr (AList.update (s_name s) (f @ s_buf s) fs, s\<lparr>s_buf := []\<rparr>))"

text \<open>
  \<open>store.Read\<close>. The result comes with the file system and the store as the call
  leaves them: the flush happens also when the read fails afterwards.
\<close>

definition store_Read :: "fsys \<Rightarrow> store \<Rightarrow> u64 \<Rightarrow> (error + byte list) \<times> fsys \<times> store" where
  "store_Read fs s pos =
     (case store_flush fs s of
        Inl e \<Rightarrow> (Inl e, fs, s)
      | Inr (fs', s') \<Rightarrow>
          (case map_of fs' (s_name s') of
             None \<Rightarrow> (Inl ErrNotExist, fs', s')
           | Some f \<Rightarrow>
               (case ReadAt f lenWidth (sint pos) of
                  Inl e \<Rightarrow> (Inl e, fs', s')
                | Inr hdr \<Rightarrow>
                    (case ReadAt f (unat (Uint64 hdr)) (sint (pos + of_nat lenWidth)) of
                       Inl e \<Rightarrow> (Inl e, fs', s')
                     | Inr b \<Rightarrow> (Inr b, fs', s')))))"

definition store_Close :: "fsys \<Rightarrow> store \<Rightarrow> (error + unit) \<times> fsys \<times> store" where
  "store_Close fs s =
     (case store_flush fs s of
        Inl e \<Rightarrow> (Inl e, fs, s)
      | Inr (fs', s') \<Rightarrow> (Inr (), fs', s'\<lparr>s_closed := True\<rparr>))"

section \<open>The index (\<open>index.go\<close>)\<close>

definition offWidth :: nat where
  "offWidth = 4"

definition posWidth :: nat where
  "posWidth = 8"

definition entWidth :: nat where
  "entWidth = offWidth + posWidth"

text \<open>
  The mapping is shared with the file (\<open>MAP_SHARED\<close>), so its bytes are the bytes of
  the file in the directory; \<open>i_maplen\<close> is \<open>len(i.mmap)\<close>, fixed when the file is
  mapped. \<open>i_size\<close> is the field \<open>size\<close>.
\<close>

record index =
  i_name :: fname
  i_maplen :: nat
  i_size :: u64
  i_closed :: bool

text \<open>
  \<open>newIndex\<close>: the size is the length of the file, the file is then truncated to
  \<open>MaxIndexBytes\<close> (an error when that is negative as an \<open>int64\<close>) and mapped (an error
  when it is empty). The truncation stays when the mapping fails.
\<close>

definition newIndex :: "fsys \<Rightarrow> fname \<Rightarrow> u64 \<Rightarrow> (error + index) \<times> fsys" where
  "newIndex fs nm maxIndexBytes =
     (case map_of fs nm of
        None \<Rightarrow> (Inl ErrNotExist, fs)
      | Some f \<Rightarrow>
          if sint maxIndexBytes < 0 then (Inl ErrInvalid, fs)
          else
            let f' = resize (unat maxIndexBytes) f;
                fs' = AList.update nm f' fs
            in if length f' = 0 then (Inl ErrInvalid, fs')
               else (Inr \<lparr>i_name = nm, i_maplen = length f',
                          i_size = of_nat (length f), i_closed = False\<rparr>, fs'))"

definition index_isMaxed :: "index \<Rightarrow> bool" where
  "index_isMaxed i \<longleftrightarrow> (of_nat (i_maplen i) :: u64) < i_size i + of_nat entWidth"

text \<open>
  \<open>index.Read(in)\<close>: \<open>in\<close> is the \<open>int64\<close> argument, \<open>out\<close> the \<open>uint32\<close> entry number
  and \<open>pos\<close> the byte position of the entry. The slice expressions on the mapping
  panic beyond its length.
\<close>

definition index_Read :: "fsys \<Rightarrow> index \<Rightarrow> u64 \<Rightarrow> error + (u32 \<times> u64)" where
  "index_Read fs i in' =
     (if i_closed i then Inl ErrClosed
      else if i_size i = 0 then Inl EOF
      else
        let out = (if in' = - 1 then (ucast (i_size i div of_nat entWidth - 1) :: u32)
                   else ucast in');
            pos = (ucast out :: u64) * of_nat entWidth
        in if i_size i < pos + of_nat entWidth then Inl EOF
           else if i_maplen i < unat pos + entWidth then Inl PanicSlice
           else case map_of fs (i_name i) of
             None \<Rightarrow> Inl ErrNotExist
           | Some m \<Rightarrow>
               if length m < unat pos + entWidth then Inl Fault
               else Inr (Uint32 (take offWidth (drop (unat pos) m)),
                         Uint64 (take posWidth (drop (unat pos + offWidth) m))))"

text \<open>\<open>index.Write(off, pos)\<close>: the entry goes to the bytes \<open>[size, size + 12)\<close>.\<close>

definition index_Write :: "fsys \<Rightarrow> index \<Rightarrow> u32 \<Rightarrow> u64 \<Rightarrow> error + (fsys \<times> index)" where
  "index_Write fs i off pos =
     (if i_closed i then Inl ErrClosed
      else if index_isMaxed i then Inl EOF
      else if i_maplen i < unat (i_size i) + entWidth then Inl PanicSlice
      else case map_of fs (i_name i) of
        None \<Rightarrow> Inl ErrNotExist
      | Some m \<Rightarrow>
          if length m < unat (i_size i) + entWidth then Inl Fault
          else
            let m' = take (unat (i_size i)) m @ PutUint32 off @ PutUint64 pos
                       @ drop (unat (i_size i) + entWidth) m
            in Inr (AList.update (i_name i) m' fs,
                    i\<lparr>i_size := i_size i + of_nat entWidth\<rparr>))"

text \<open>
  \<open>index.Close\<close>: sync, truncate the file back to \<open>size\<close>, close. The model keeps no
  separate copy of the mapping, so the two syncs change nothing.
\<close>

definition index_Close :: "fsys \<Rightarrow> index \<Rightarrow> (error + unit) \<times> fsys \<times> index" where
  "index_Close fs i =
     (if i_closed i then (Inl ErrClosed, fs, i)
      else case map_of fs (i_name i) of
        None \<Rightarrow> (Inl ErrNotExist, fs, i)
      | Some m \<Rightarrow>
          if sint (i_size i) < 0 then (Inl ErrInvalid, fs, i)
          else (Inr (), AList.update (i_name i) (resize (unat (i_size i)) m) fs,
                i\<lparr>i_closed := True\<rparr>))"

section \<open>Records, the serializer and the configuration\<close>

text \<open>
  Modelled from the spec: the type \<open>api.Record\<close> is generated code that is not part of
  the sources. The spec's data model gives it as an opaque byte string \<open>value\<close> plus an
  assigned \<open>offset: u64\<close>.
\<close>

record Record =
  r_value :: "byte list"
  r_offset :: u64

text \<open>
  \<open>proto.Marshal\<close> and \<open>proto.Unmarshal\<close> belong to the request layer. They are a
  parameter of the segment: a pair of functions that may fail.
\<close>

record codec =
  marshal :: "Record \<Rightarrow> error + byte list"
  unmarshal :: "byte list \<Rightarrow> error + Record"

text \<open>
  Modelled from the spec: the type \<open>Config\<close> is declared in a file that is not part of
  the sources. The spec's configuration table gives the three options of
  \<open>Config.Segment\<close>, all \<open>uint64\<close>.
\<close>

record Config =
  MaxStoreBytes :: u64
  MaxIndexBytes :: u64
  InitialOffset :: u64

section \<open>The segment (\<open>segment.go\<close>)\<close>

record segment =
  seg_store :: store
  seg_index :: index
  baseOffset :: u64
  nextOffset :: u64
  seg_config :: Config

text \<open>
  \<open>newSegment(dir, baseOffset, c)\<close>: both files are opened, and created when they are
  missing; \<open>nextOffset\<close> comes from the last entry of the index. The files created and
  the truncation of the index stay when a later step fails.
\<close>

definition newSegment :: "fsys \<Rightarrow> u64 \<Rightarrow> Config \<Rightarrow> (error + segment) \<times> fsys" where
  "newSegment fs b c =
     (let fs1 = fs_create fs (StoreFile b) in
      (case newStore fs1 (StoreFile b) of
         Inl e \<Rightarrow> (Inl e, fs1)
       | Inr st \<Rightarrow>
           (let fs2 = fs_create fs1 (IndexFile b) in
            (case newIndex fs2 (IndexFile b) (MaxIndexBytes c) of
               (Inl e, fs3) \<Rightarrow> (Inl e, fs3)
             | (Inr ix, fs3) \<Rightarrow>
                 (Inr \<lparr>seg_store = st, seg_index = ix, baseOffset = b,
                       nextOffset = (case index_Read fs3 ix (- 1) of
                                       Inl e \<Rightarrow> b
                                     | Inr (off, pos) \<Rightarrow> b + ucast off + 1),
                       seg_config = c\<rparr>, fs3)))))"

text \<open>
  \<open>segment.Append\<close>. The record is stamped with the offset before it is serialized.
  The bytes stay in the store when the write to the index fails.
\<close>

definition segment_Append ::
  "codec \<Rightarrow> fsys \<Rightarrow> segment \<Rightarrow> Record \<Rightarrow> (error + u64) \<times> fsys \<times> segment" where
  "segment_Append cd fs s record =
     (let cur = nextOffset s;
          record' = record\<lparr>r_offset := cur\<rparr>
      in case marshal cd record' of
           Inl e \<Rightarrow> (Inl e, fs, s)
         | Inr p \<Rightarrow>
             (case store_Append (seg_store s) p of
                Inl e \<Rightarrow> (Inl e, fs, s)
              | Inr (n, pos, st') \<Rightarrow>
                  let s1 = s\<lparr>seg_store := st'\<rparr> in
                  (case index_Write fs (seg_index s1)
                          (ucast (nextOffset s1 - baseOffset s1)) pos of
                     Inl e \<Rightarrow> (Inl e, fs, s1)
                   | Inr (fs', ix') \<Rightarrow>
                       (Inr cur, fs',
                        s1\<lparr>seg_index := ix', nextOffset := nextOffset s1 + 1\<rparr>))))"

definition segment_Read ::
  "codec \<Rightarrow> fsys \<Rightarrow> segment \<Rightarrow> u64 \<Rightarrow> (error + Record) \<times> fsys \<times> segment" where
  "segment_Read cd fs s off =
     (case index_Read fs (seg_index s) (off - baseOffset s) of
        Inl e \<Rightarrow> (Inl e, fs, s)
      | Inr (out, pos) \<Rightarrow>
          (case store_Read fs (seg_store s) pos of
             (Inl e, fs', st') \<Rightarrow> (Inl e, fs', s\<lparr>seg_store := st'\<rparr>)
           | (Inr p, fs', st') \<Rightarrow> (unmarshal cd p, fs', s\<lparr>seg_store := st'\<rparr>)))"

definition segment_IsMaxed :: "segment \<Rightarrow> bool" where
  "segment_IsMaxed s \<longleftrightarrow>
     s_size (seg_store s) \<ge> MaxStoreBytes (seg_config s) \<or>
     i_size (seg_index s) \<ge> MaxIndexBytes (seg_config s) \<or>
     index_isMaxed (seg_index s)"

text \<open>\<open>segment.Close\<close>: the index first, then the store.\<close>

definition segment_Close :: "fsys \<Rightarrow> segment \<Rightarrow> (error + unit) \<times> fsys \<times> segment" where
  "segment_Close fs s =
     (case index_Close fs (seg_index s) of
        (Inl e, fs1, ix') \<Rightarrow> (Inl e, fs1, s\<lparr>seg_index := ix'\<rparr>)
      | (Inr u, fs1, ix') \<Rightarrow>
          (case store_Close fs1 (seg_store s) of
             (r, fs2, st') \<Rightarrow> (r, fs2, s\<lparr>seg_index := ix', seg_store := st'\<rparr>)))"

text \<open>\<open>segment.Remove\<close>: close, then delete the index file and the store file.\<close>

definition segment_Remove :: "fsys \<Rightarrow> segment \<Rightarrow> (error + unit) \<times> fsys \<times> segment" where
  "segment_Remove fs s =
     (case segment_Close fs s of
        (Inl e, fs1, s1) \<Rightarrow> (Inl e, fs1, s1)
      | (Inr u, fs1, s1) \<Rightarrow>
          (case fs_remove fs1 (i_name (seg_index s1)) of
             Inl e \<Rightarrow> (Inl e, fs1, s1)
           | Inr fs2 \<Rightarrow>
               (case fs_remove fs2 (s_name (seg_store s1)) of
                  Inl e \<Rightarrow> (Inl e, fs2, s1)
                | Inr fs3 \<Rightarrow> (Inr (), fs3, s1))))"

section \<open>The log (\<open>log.go\<close>)\<close>

text \<open>
  \<open>segments\<close> and \<open>activeSegment\<close> hold pointers, and \<open>Append\<close> changes the active
  segment through \<open>activeSegment\<close> while \<open>Read\<close>, \<open>Close\<close> and \<open>Truncate\<close> go through
  \<open>segments\<close>. The segments therefore live in a heap, a list that only grows, and a
  pointer is a position in it; \<open>None\<close> is the nil pointer. \<open>Dir\<close> is the directory
  with the content of its files.
\<close>

record Log =
  Dir :: fsys
  l_config :: Config
  heap :: "segment list"
  segments :: "nat list"
  activeSegment :: "nat option"

text \<open>Go never follows a dangling pointer; the model reports \<open>PanicNil\<close> for one.\<close>

definition deref :: "segment list \<Rightarrow> nat \<Rightarrow> segment option" where
  "deref h a = (if a < length h then Some (h ! a) else None)"

text \<open>\<open>Log.newSegment(off)\<close>: the new segment is appended and becomes the active one.\<close>

definition Log_newSegment :: "Log \<Rightarrow> u64 \<Rightarrow> (error + unit) \<times> Log" where
  "Log_newSegment l off =
     (case newSegment (Dir l) off (l_config l) of
        (Inl e, fs') \<Rightarrow> (Inl e, l\<lparr>Dir := fs'\<rparr>)
      | (Inr s, fs') \<Rightarrow>
          (Inr (), l\<lparr>Dir := fs', heap := heap l @ [s],
                     segments := segments l @ [length (heap l)],
                     activeSegment := Some (length (heap l))\<rparr>))"

text \<open>
  \<open>Log.setup\<close>. Every file of the directory gives its base offset, the offsets are
  sorted, and the loop, which increments \<open>i\<close> twice in each round, opens a segment for
  every other one.
\<close>

fun every_other :: "'a list \<Rightarrow> 'a list" where
  "every_other [] = []"
| "every_other [x] = [x]"
| "every_other (x # y # zs) = x # every_other zs"

fun open_segments :: "Log \<Rightarrow> u64 list \<Rightarrow> (error + unit) \<times> Log" where
  "open_segments l [] = (Inr (), l)"
| "open_segments l (b # bs) =
     (case Log_newSegment l b of
        (Inl e, l') \<Rightarrow> (Inl e, l')
      | (Inr u, l') \<Rightarrow> open_segments l' bs)"

definition Log_setup :: "Log \<Rightarrow> (error + unit) \<times> Log" where
  "Log_setup l =
     (let baseOffsets = sort (map (\<lambda>file. base_of (fst file)) (Dir l)) in
      (case open_segments l (every_other baseOffsets) of
         (Inl e, l') \<Rightarrow> (Inl e, l')
       | (Inr u, l') \<Rightarrow>
           if segments l' = [] then Log_newSegment l' (InitialOffset (l_config l'))
           else (Inr (), l')))"

definition NewLog :: "fsys \<Rightarrow> Config \<Rightarrow> (error + unit) \<times> Log" where
  "NewLog dir c =
     (let c1 = (if MaxStoreBytes c = 0 then c\<lparr>MaxStoreBytes := 1024\<rparr> else c);
          c2 = (if MaxIndexBytes c1 = 0 then c1\<lparr>MaxIndexBytes := 1024\<rparr> else c1)
      in Log_setup \<lparr>Dir = dir, l_config = c2, heap = [], segments = [],
                    activeSegment = None\<rparr>)"

text \<open>
  \<open>Log.highestOffset\<close> indexes \<open>segments[len(segments)-1]\<close> and \<open>Log.LowestOffset\<close>
  indexes \<open>segments[0]\<close>: both panic on an empty list. \<open>HighestOffset\<close> only adds the
  lock.
\<close>

definition Log_highestOffset :: "Log \<Rightarrow> error + u64" where
  "Log_highestOffset l =
     (if segments l = [] then Inl PanicIndex
      else case deref (heap l) (last (segments l)) of
        None \<Rightarrow> Inl PanicNil
      | Some s \<Rightarrow>
          let off = nextOffset s in
          if off = 0 then Inr 0 else Inr (off - 1))"

definition Log_HighestOffset :: "Log \<Rightarrow> error + u64" where
  "Log_HighestOffset l = Log_highestOffset l"

definition Log_LowestOffset :: "Log \<Rightarrow> error + u64" where
  "Log_LowestOffset l =
     (case segments l of
        [] \<Rightarrow> Inl PanicIndex
      | a # as \<Rightarrow> (case deref (heap l) a of
                    None \<Rightarrow> Inl PanicNil
                  | Some s \<Rightarrow> Inr (baseOffset s)))"

definition Log_Append :: "codec \<Rightarrow> Log \<Rightarrow> Record \<Rightarrow> (error + u64) \<times> Log" where
  "Log_Append cd l record =
     (case Log_highestOffset l of
        Inl e \<Rightarrow> (Inl e, l)
      | Inr highestOffset \<Rightarrow>
          (case Option.bind (activeSegment l) (deref (heap l)) of
             None \<Rightarrow> (Inl PanicNil, l)
           | Some s \<Rightarrow>
               (case (if segment_IsMaxed s then Log_newSegment l (highestOffset + 1)
                      else (Inr (), l)) of
                  (Inl e, l1) \<Rightarrow> (Inl e, l1)
                | (Inr u, l1) \<Rightarrow>
                    (case activeSegment l1 of
                       None \<Rightarrow> (Inl PanicNil, l1)
                     | Some a \<Rightarrow>
                         (case deref (heap l1) a of
                            None \<Rightarrow> (Inl PanicNil, l1)
                          | Some s1 \<Rightarrow>
                              (case segment_Append cd (Dir l1) s1 record of
                                 (r, fs', s2) \<Rightarrow>
                                   (r, l1\<lparr>Dir := fs', heap := (heap l1)[a := s2]\<rparr>)))))))"

text \<open>The loop of \<open>Log.Read\<close>: the first segment with \<open>baseOffset \<le> off < nextOffset\<close>.\<close>

fun find_segment :: "segment list \<Rightarrow> u64 \<Rightarrow> nat list \<Rightarrow> error + nat option" where
  "find_segment h off [] = Inr None"
| "find_segment h off (a # as) =
     (case deref h a of
        None \<Rightarrow> Inl PanicNil
      | Some s \<Rightarrow>
          if baseOffset s \<le> off \<and> off < nextOffset s then Inr (Some a)
          else find_segment h off as)"

definition Log_Read :: "codec \<Rightarrow> Log \<Rightarrow> u64 \<Rightarrow> (error + Record) \<times> Log" where
  "Log_Read cd l off =
     (case find_segment (heap l) off (segments l) of
        Inl e \<Rightarrow> (Inl e, l)
      | Inr None \<Rightarrow> (Inl (OffsetOutOfRange off), l)
      | Inr (Some a) \<Rightarrow>
          (case segment_Read cd (Dir l) ((heap l) ! a) off of
             (r, fs', s') \<Rightarrow> (r, l\<lparr>Dir := fs', heap := (heap l)[a := s']\<rparr>)))"

text \<open>\<open>Log.Close\<close> stops at the first segment that fails to close.\<close>

fun close_loop ::
  "fsys \<Rightarrow> segment list \<Rightarrow> nat list \<Rightarrow> (error + unit) \<times> fsys \<times> segment list" where
  "close_loop fs h [] = (Inr (), fs, h)"
| "close_loop fs h (a # as) =
     (case deref h a of
        None \<Rightarrow> (Inl PanicNil, fs, h)
      | Some s \<Rightarrow>
          (case segment_Close fs s of
             (Inl e, fs', s') \<Rightarrow> (Inl e, fs', h[a := s'])
           | (Inr u, fs', s') \<Rightarrow> close_loop fs' (h[a := s']) as))"

definition Log_Close :: "Log \<Rightarrow> (error + unit) \<times> Log" where
  "Log_Close l =
     (case close_loop (Dir l) (heap l) (segments l) of
        (r, fs', h') \<Rightarrow> (r, l\<lparr>Dir := fs', heap := h'\<rparr>))"

text \<open>
  \<open>Log.Truncate(lowest)\<close>. \<open>kept\<close> is the local slice \<open>segments\<close>; it replaces
  \<open>l.segments\<close> only after the loop, so an error in \<open>Remove\<close> leaves the list as it
  was. \<open>activeSegment\<close> is not assigned.
\<close>

fun truncate_loop ::
  "fsys \<Rightarrow> segment list \<Rightarrow> u64 \<Rightarrow> nat list \<Rightarrow> nat list
     \<Rightarrow> (error + nat list) \<times> fsys \<times> segment list" where
  "truncate_loop fs h lowest [] kept = (Inr kept, fs, h)"
| "truncate_loop fs h lowest (a # as) kept =
     (case deref h a of
        None \<Rightarrow> (Inl PanicNil, fs, h)
      | Some s \<Rightarrow>
          if nextOffset s \<le> lowest + 1 then
            (case segment_Remove fs s of
               (Inl e, fs', s') \<Rightarrow> (Inl e, fs', h[a := s'])
             | (Inr u, fs', s') \<Rightarrow> truncate_loop fs' (h[a := s']) lowest as kept)
          else truncate_loop fs h lowest as (kept @ [a]))"

definition Log_Truncate :: "Log \<Rightarrow> u64 \<Rightarrow> (error + unit) \<times> Log" where
  "Log_Truncate l lowest =
     (case truncate_loop (Dir l) (heap l) lowest (segments l) [] of
        (Inl e, fs', h') \<Rightarrow> (Inl e, l\<lparr>Dir := fs', heap := h'\<rparr>)
      | (Inr kept, fs', h') \<Rightarrow> (Inr (), l\<lparr>Dir := fs', heap := h', segments := kept\<rparr>))"

section \<open>Fixtures for the examples\<close>

text \<open>
  The examples need some serializer. This one writes the offset as eight big-endian
  bytes followed by the value; it stands for any serializer that can be inverted.
\<close>

definition raw_codec :: codec where
  "raw_codec =
     \<lparr>marshal = (\<lambda>r. Inr (PutUint64 (r_offset r) @ r_value r)),
      unmarshal = (\<lambda>bs. if length bs < 8 then Inl CodecError
                         else Inr \<lparr>r_value = drop 8 bs, r_offset = Uint64 (take 8 bs)\<rparr>)\<rparr>"

definition small_config :: Config where
  "small_config = \<lparr>MaxStoreBytes = 32, MaxIndexBytes = 36, InitialOffset = 0\<rparr>"

text \<open>An index with one entry, \<open>(0, 0)\<close>, in a mapping of 24 bytes, and its file.\<close>

definition one_entry_index :: index where
  "one_entry_index = \<lparr>i_name = IndexFile 0, i_maplen = 24, i_size = 12, i_closed = False\<rparr>"

definition one_entry_dir :: fsys where
  "one_entry_dir =
     [(IndexFile 0, [0, 0, 0, 0, 0, 0, 0, 0, 0, 0, 0, 0, 0, 0, 0, 0, 0, 0, 0, 0, 0, 0, 0, 0])]"

text \<open>
  A segment with base offset \<open>2^32\<close> that holds one record, and its directory: what
  \<open>newSegment\<close> on an empty directory followed by one \<open>Append\<close> leaves.
\<close>

definition high_segment :: segment where
  "high_segment =
     \<lparr>seg_store = \<lparr>s_name = StoreFile 4294967296,
                    s_buf = PutUint64 9 @ PutUint64 4294967296 @ [7], s_size = 17,
                    s_closed = False\<rparr>,
      seg_index = \<lparr>i_name = IndexFile 4294967296, i_maplen = 36, i_size = 12,
                    i_closed = False\<rparr>,
      baseOffset = 4294967296, nextOffset = 4294967297, seg_config = small_config\<rparr>"

definition high_dir :: fsys where
  "high_dir = [(StoreFile 4294967296, []),
               (IndexFile 4294967296, PutUint32 0 @ PutUint64 0 @ replicate 24 0)]"


text \<open>
  A segment of the list is usable when it carries the names of its base offset, neither
  file is closed and both exist. A removed segment is closed and its files are gone.
  The list of a log is sound when its pointers are distinct and valid and its segments
  are usable and have distinct base offsets.
\<close>

definition seg_open :: "fsys \<Rightarrow> segment \<Rightarrow> bool" where
  "seg_open fs s \<longleftrightarrow>
     s_name (seg_store s) = StoreFile (baseOffset s) \<and>
     i_name (seg_index s) = IndexFile (baseOffset s) \<and>
     \<not> s_closed (seg_store s) \<and> \<not> i_closed (seg_index s) \<and>
     map_of fs (StoreFile (baseOffset s)) \<noteq> None \<and>
     map_of fs (IndexFile (baseOffset s)) \<noteq> None \<and>
     0 \<le> sint (i_size (seg_index s))"

definition seg_gone :: "fsys \<Rightarrow> segment \<Rightarrow> bool" where
  "seg_gone fs s \<longleftrightarrow>
     s_closed (seg_store s) \<and> i_closed (seg_index s) \<and>
     map_of fs (StoreFile (baseOffset s)) = None \<and>
     map_of fs (IndexFile (baseOffset s)) = None"

definition log_wf :: "Log \<Rightarrow> bool" where
  "log_wf l \<longleftrightarrow>
     distinct (segments l) \<and>
     distinct (map (\<lambda>a. baseOffset (heap l ! a)) (segments l)) \<and>
     (\<forall>a \<in> set (segments l). a < length (heap l) \<and> seg_open (Dir l) (heap l ! a))"

text \<open>
  The log of the examples: three records appended to a fresh log with \<open>small_config\<close>.
  The first two fill the first segment, the third goes to a second one.
\<close>

definition demo_record :: Record where
  "demo_record = \<lparr>r_value = [7], r_offset = 0\<rparr>"

definition demo_log :: Log where
  "demo_log =
     snd (Log_Append raw_codec
       (snd (Log_Append raw_codec
         (snd (Log_Append raw_codec (snd (NewLog [] small_config)) demo_record))
         demo_record))
       demo_record)"

section \<open>Properties\<close>

subsection \<open>Big-endian integers and conversions\<close>

lemma length_be_bytes [simp]: "length (be_bytes k v) = k"
  by (induction k arbitrary: v) auto

lemma be_value_snoc: "be_value (bs @ [b]) = be_value bs * 256 + unat b"
  by (simp add: be_value_def)

lemma be_value_be_bytes: "be_value (be_bytes k v) = v mod 256 ^ k"
proof (induction k arbitrary: v)
  case 0
  show ?case by (simp add: be_value_def)
next
  case (Suc k)
  have "unat (of_nat (v mod 256) :: byte) = v mod 256"
    by (simp add: unat_of_nat)
  then have "be_value (be_bytes (Suc k) v) = (v div 256 mod 256 ^ k) * 256 + v mod 256"
    by (simp add: be_value_snoc Suc.IH)
  also have "\<dots> = v mod 256 ^ Suc k"
    by (simp add: mod_mult2_eq)
  finally show ?case .
qed

lemma unat_u32_less: "unat (w :: u32) < 4294967296"
  using unsigned_less [of w, where 'a = nat] by simp

lemma unat_u64_less: "unat (w :: u64) < 18446744073709551616"
  using unsigned_less [of w, where 'a = nat] by simp

lemma Uint64_PutUint64 [simp]: "Uint64 (PutUint64 v) = v"
  using unat_u64_less [of v]
  by (simp add: Uint64_def PutUint64_def be_value_be_bytes)

lemma Uint32_PutUint32 [simp]: "Uint32 (PutUint32 v) = v"
  using unat_u32_less [of v]
  by (simp add: Uint32_def PutUint32_def be_value_be_bytes)

lemma length_PutUint64 [simp]: "length (PutUint64 v) = 8"
  by (simp add: PutUint64_def)

lemma length_PutUint32 [simp]: "length (PutUint32 v) = 4"
  by (simp add: PutUint32_def)

lemma unat_ucast_64_32: "unat (ucast (w :: u64) :: u32) = unat w mod 2 ^ 32"
  by (simp add: unsigned_ucast_eq take_bit_eq_mod)

lemma unat_ucast_32_64: "unat (ucast (w :: u32) :: u64) = unat w"
  using unat_u32_less [of w] by (simp add: unsigned_ucast_eq take_bit_eq_mod)

lemma unat_entry_pos: "unat ((ucast (out :: u32) :: u64) * 12) = 12 * unat out"
proof -
  have "unat (ucast out :: u64) * unat (12 :: u64) < 2 ^ LENGTH(64)"
    using unat_u32_less [of out] by (simp add: unat_ucast_32_64)
  then have "unat ((ucast out :: u64) * 12) = unat (ucast out :: u64) * unat (12 :: u64)"
    by (simp only: unat_mult_lem)
  then show ?thesis by (simp add: unat_ucast_32_64)
qed

lemma unat_entry_end: "unat ((ucast (out :: u32) :: u64) * 12 + 12) = 12 * unat out + 12"
proof -
  have "unat ((ucast out :: u64) * 12) + unat (12 :: u64) < 2 ^ LENGTH(64)"
    using unat_u32_less [of out] by (simp add: unat_entry_pos)
  then have "unat ((ucast out :: u64) * 12 + 12)
      = unat ((ucast out :: u64) * 12) + unat (12 :: u64)"
    by (simp only: unat_add_lem)
  then show ?thesis by (simp add: unat_entry_pos)
qed

subsection \<open>The store\<close>

text \<open>
  Claim C6. A successful \<open>store.Append(p)\<close> on a store of size \<open>S\<close> returns
  \<open>pos = S\<close> and \<open>n = 8 + len(p)\<close>, puts the frame, eight big-endian bytes of the
  length and then the payload, behind the bytes already written, and leaves the size
  at \<open>S + n\<close>. The sums are those of \<open>uint64\<close>; for a payload that a Go slice can hold
  \<open>n\<close> is the number \<open>8 + len(p)\<close> itself.
\<close>

theorem store_Append_frame:
  assumes "store_Append s p = Inr (n, pos, s')"
  shows "pos = s_size s \<and> n = 8 + of_nat (length p)
       \<and> s_buf s' = s_buf s @ PutUint64 (of_nat (length p)) @ p
       \<and> length (PutUint64 (of_nat (length p))) = 8
       \<and> (length p < 2 ^ 64 \<longrightarrow> be_value (PutUint64 (of_nat (length p))) = length p)
       \<and> s_size s' = s_size s + n
       \<and> (length p < 2 ^ 63 \<longrightarrow> unat n = 8 + length p)
       \<and> s_name s' = s_name s"
proof -
  from assms have nc: "\<not> s_closed s"
    by (auto simp: store_Append_def split: if_splits)
  from assms nc have pos: "pos = s_size s" and n: "n = of_nat (length p + 8)"
    and s': "s' = s\<lparr>s_buf := s_buf s @ PutUint64 (of_nat (length p)) @ p,
                     s_size := s_size s + of_nat (length p + 8)\<rparr>"
    by (auto simp: store_Append_def Let_def lenWidth_def)
  have a: "length p < 2 ^ 64 \<longrightarrow> be_value (PutUint64 (of_nat (length p))) = length p"
    by (simp add: PutUint64_def be_value_be_bytes unat_of_nat)
  have "unat n = (length p + 8) mod 2 ^ 64"
    unfolding n by (simp only: unat_of_nat len_of_numeral_defs) simp
  then have b: "length p < 2 ^ 63 \<longrightarrow> unat n = 8 + length p"
    by simp
  from pos n s' a b show ?thesis by simp
qed

theorem store_Append_frame_witness:
  "store_Append \<lparr>s_name = StoreFile 0, s_buf = [], s_size = 5, s_closed = False\<rparr> [1, 2, 3]
     = Inr (11, 5, \<lparr>s_name = StoreFile 0, s_buf = PutUint64 3 @ [1, 2, 3], s_size = 16,
                    s_closed = False\<rparr>)
   \<and> length [1, 2, 3 :: byte] < 2 ^ 63
   \<and> unat (11 :: u64) = 8 + length [1, 2, 3 :: byte]"
proof -
  have h: "store_Append \<lparr>s_name = StoreFile 0, s_buf = [], s_size = 5, s_closed = False\<rparr>
      [1, 2, 3]
     = Inr (11, 5, \<lparr>s_name = StoreFile 0, s_buf = PutUint64 3 @ [1, 2, 3], s_size = 16,
                    s_closed = False\<rparr>)"
    by (simp add: store_Append_def Let_def lenWidth_def)
  have b: "length [1, 2, 3 :: byte] < 2 ^ 63"
    by simp
  from store_Append_frame [OF h]
  have "length [1, 2, 3 :: byte] < 2 ^ 63 \<longrightarrow> unat (11 :: u64) = 8 + length [1, 2, 3 :: byte]"
    by (elim conjE)
  with b have "unat (11 :: u64) = 8 + length [1, 2, 3 :: byte]"
    by (rule rev_mp)
  with h b show ?thesis by (intro conjI)
qed

subsection \<open>The index\<close>

text \<open>
  Claim C7, as the code has it. For an open index whose entries lie inside its mapping:
  \<open>Read(in)\<close> fails with \<open>io.EOF\<close> when \<open>size = 0\<close>. Otherwise the entry number is
  \<open>k = (size / 12 - 1) mod 2^32\<close> when \<open>in = -1\<close> and \<open>k = in mod 2^32\<close> for every other
  \<open>in\<close>, the argument being converted to \<open>uint32\<close>; the call fails with \<open>io.EOF\<close>
  exactly when the bytes \<open>[12 k, 12 k + 12)\<close> reach beyond \<open>size\<close>, and otherwise returns
  the big-endian offset in the first four of these bytes and the big-endian position
  in the other eight. For \<open>0 \<le> in < 2^32\<close> the entry number is \<open>in\<close> itself.
\<close>

theorem index_Read_entry:
  assumes "\<not> i_closed i" and "map_of fs (i_name i) = Some m"
    and "unat (i_size i) \<le> i_maplen i" and "i_maplen i \<le> length m"
  shows "index_Read fs i in' =
     (let k = (if in' = - 1 then unat (i_size i div 12 - 1) mod 2 ^ 32
               else unat in' mod 2 ^ 32)
      in if i_size i = 0 \<or> unat (i_size i) < 12 * k + 12 then Inl EOF
         else Inr (Uint32 (take 4 (drop (12 * k) m)),
                   Uint64 (take 8 (drop (12 * k + 4) m))))"
  using assms
  by (simp add: index_Read_def Let_def entWidth_def offWidth_def posWidth_def
      word_less_nat_alt unat_entry_end unat_entry_pos unat_ucast_64_32)

theorem index_Read_entry_witness:
  "\<not> i_closed one_entry_index
   \<and> map_of one_entry_dir (i_name one_entry_index) = Some (snd (hd one_entry_dir))
   \<and> unat (i_size one_entry_index) \<le> i_maplen one_entry_index
   \<and> i_maplen one_entry_index \<le> length (snd (hd one_entry_dir))
   \<and> index_Read one_entry_dir one_entry_index 0 = Inr (0, 0)
   \<and> index_Read one_entry_dir one_entry_index 1 = Inl EOF"
proof -
  have h: "\<not> i_closed one_entry_index"
    "map_of one_entry_dir (i_name one_entry_index) = Some (snd (hd one_entry_dir))"
    "unat (i_size one_entry_index) \<le> i_maplen one_entry_index"
    "i_maplen one_entry_index \<le> length (snd (hd one_entry_dir))"
    by (simp_all add: one_entry_index_def one_entry_dir_def)
  have a: "index_Read one_entry_dir one_entry_index 0 = Inr (0, 0)"
    by (subst index_Read_entry [OF h])
       (simp add: one_entry_index_def one_entry_dir_def Uint32_def Uint64_def be_value_def)
  have b: "index_Read one_entry_dir one_entry_index 1 = Inl EOF"
    by (subst index_Read_entry [OF h])
       (simp add: one_entry_index_def one_entry_dir_def Uint32_def Uint64_def be_value_def)
  from h a b show ?thesis by (intro conjI)
qed

text \<open>
  Claim C7 as it is written fails at the entry number \<open>2^32\<close>: the bytes
  \<open>[12 \<sqdot> 2^32, 12 \<sqdot> 2^32 + 12)\<close> lie beyond a size of 12, and yet the call returns
  entry 0.
\<close>

theorem index_Read_counterexample:
  "0 \<le> sint (4294967296 :: u64)
   \<and> unat (i_size one_entry_index) < 12 * unat (4294967296 :: u64) + 12
   \<and> index_Read one_entry_dir one_entry_index 4294967296 = Inr (0, 0)"
  by (simp add: index_Read_def one_entry_index_def one_entry_dir_def Let_def entWidth_def
      offWidth_def posWidth_def Uint32_def Uint64_def be_value_def)


subsection \<open>The segment\<close>

lemmas eval_defs = NewLog_def Log_setup_def Log_newSegment_def newSegment_def fs_create_def
  newStore_def newIndex_def resize_def index_Read_def Let_def segment_Append_def
  store_Append_def index_Write_def index_isMaxed_def segment_Read_def store_Read_def
  store_flush_def ReadAt_def lenWidth_def entWidth_def offWidth_def posWidth_def
  raw_codec_def small_config_def Log_Append_def Log_Read_def Log_highestOffset_def
  Log_HighestOffset_def deref_def segment_IsMaxed_def

text \<open>
  Claim C8. \<open>IsMaxed\<close> holds exactly when the store has reached \<open>MaxStoreBytes\<close>, or
  the index has reached \<open>MaxIndexBytes\<close>, or the mapping is shorter than
  \<open>index.size + 12\<close>. The sizes are read as numbers; the sum \<open>index.size + 12\<close> does not
  wrap, as the size of an index is the length of a file or of a mapping.
\<close>

theorem segment_IsMaxed_iff:
  assumes "unat (i_size (seg_index s)) + 12 < 2 ^ 64" and "i_maplen (seg_index s) < 2 ^ 64"
  shows "segment_IsMaxed s \<longleftrightarrow>
     unat (MaxStoreBytes (seg_config s)) \<le> unat (s_size (seg_store s)) \<or>
     unat (MaxIndexBytes (seg_config s)) \<le> unat (i_size (seg_index s)) \<or>
     i_maplen (seg_index s) < unat (i_size (seg_index s)) + 12"
proof -
  have a: "unat (i_size (seg_index s) + 12) = unat (i_size (seg_index s)) + 12"
    using assms(1) unat_add_lem [of "i_size (seg_index s)" 12] by simp
  have b: "unat (of_nat (i_maplen (seg_index s)) :: u64) = i_maplen (seg_index s)"
    using assms(2) by (simp add: unat_of_nat)
  show ?thesis
    by (simp add: segment_IsMaxed_def index_isMaxed_def entWidth_def offWidth_def posWidth_def
        word_le_nat_alt word_less_nat_alt a b)
qed

theorem segment_IsMaxed_iff_witness:
  "unat (i_size (seg_index high_segment)) + 12 < 2 ^ 64
   \<and> i_maplen (seg_index high_segment) < 2 ^ 64
   \<and> \<not> segment_IsMaxed high_segment"
proof -
  have h: "unat (i_size (seg_index high_segment)) + 12 < 2 ^ 64"
    "i_maplen (seg_index high_segment) < 2 ^ 64"
    by (simp_all add: high_segment_def)
  have "\<not> segment_IsMaxed high_segment"
    by (subst segment_IsMaxed_iff [OF h]) (simp add: high_segment_def small_config_def)
  with h show ?thesis by (intro conjI)
qed

lemma high_segment_built:
  "newSegment [] 4294967296 small_config = (Inr s0, fs0) \<Longrightarrow>
   segment_Append raw_codec fs0 s0 \<lparr>r_value = [7], r_offset = 0\<rparr>
     = (Inr 4294967296, high_dir, high_segment)"
  by (auto simp add: eval_defs high_dir_def high_segment_def)



subsection \<open>The log: offsets\<close>





subsection \<open>The log: truncation\<close>

lemma segment_Close_open:
  assumes "seg_open fs s"
  shows "\<exists>fs' s'. segment_Close fs s = (Inr (), fs', s')
     \<and> s_closed (seg_store s') \<and> i_closed (seg_index s')
     \<and> baseOffset s' = baseOffset s \<and> nextOffset s' = nextOffset s
     \<and> s_name (seg_store s') = s_name (seg_store s)
     \<and> i_name (seg_index s') = i_name (seg_index s)
     \<and> map fst fs' = map fst fs
     \<and> map_of fs' (StoreFile (baseOffset s)) \<noteq> None
     \<and> map_of fs' (IndexFile (baseOffset s)) \<noteq> None
     \<and> (\<forall>nm. base_of nm \<noteq> baseOffset s \<longrightarrow> map_of fs' nm = map_of fs nm)"
proof -
  from assms obtain f m where
    f: "map_of fs (StoreFile (baseOffset s)) = Some f" and
    m: "map_of fs (IndexFile (baseOffset s)) = Some m"
    by (auto simp: seg_open_def)
  have k1: "StoreFile (baseOffset s) \<in> fst ` set fs" "IndexFile (baseOffset s) \<in> fst ` set fs"
    using f m by (auto dest: map_of_SomeD intro: rev_image_eqI)
  show ?thesis
    using assms f m k1
    by (auto simp add: seg_open_def segment_Close_def index_Close_def store_Close_def
        store_flush_def update_conv' update_keys)
qed

lemma segment_Remove_open:
  assumes "seg_open fs s"
  shows "\<exists>fs' s'. segment_Remove fs s = (Inr (), fs', s')
     \<and> seg_gone fs' s'
     \<and> baseOffset s' = baseOffset s \<and> nextOffset s' = nextOffset s
     \<and> (\<forall>nm. base_of nm \<noteq> baseOffset s \<longrightarrow> map_of fs' nm = map_of fs nm)"
proof -
  from segment_Close_open [OF assms] obtain fs1 s1 where
    c: "segment_Close fs s = (Inr (), fs1, s1)"
    and cl: "s_closed (seg_store s1)" "i_closed (seg_index s1)"
    and b: "baseOffset s1 = baseOffset s" "nextOffset s1 = nextOffset s"
    and nm: "s_name (seg_store s1) = s_name (seg_store s)"
      "i_name (seg_index s1) = i_name (seg_index s)"
    and ex: "map_of fs1 (StoreFile (baseOffset s)) \<noteq> None"
      "map_of fs1 (IndexFile (baseOffset s)) \<noteq> None"
    and fr: "\<forall>nm. base_of nm \<noteq> baseOffset s \<longrightarrow> map_of fs1 nm = map_of fs nm"
    by blast
  from assms have names: "s_name (seg_store s) = StoreFile (baseOffset s)"
    "i_name (seg_index s) = IndexFile (baseOffset s)"
    by (simp_all add: seg_open_def)
  show ?thesis
    using c cl b nm ex fr names
    by (auto simp add: segment_Remove_def fs_remove_def seg_gone_def delete_conv')
qed

lemma seg_open_cong:
  assumes "map_of fs' (StoreFile (baseOffset s)) = map_of fs (StoreFile (baseOffset s))"
    and "map_of fs' (IndexFile (baseOffset s)) = map_of fs (IndexFile (baseOffset s))"
  shows "seg_open fs' s = seg_open fs s"
  using assms by (simp add: seg_open_def)

lemma seg_gone_cong:
  assumes "map_of fs' (StoreFile (baseOffset s)) = map_of fs (StoreFile (baseOffset s))"
    and "map_of fs' (IndexFile (baseOffset s)) = map_of fs (IndexFile (baseOffset s))"
  shows "seg_gone fs' s = seg_gone fs s"
  using assms by (simp add: seg_gone_def)

lemma truncate_loop_ok:
  assumes "distinct as" and "distinct (map (\<lambda>a. baseOffset (h ! a)) as)"
    and "\<forall>a\<in>set as. a < length h \<and> seg_open fs (h ! a)"
  shows "\<exists>fs' h'. truncate_loop fs h lowest as kept
        = (Inr (kept @ filter (\<lambda>a. \<not> nextOffset (h ! a) \<le> lowest + 1) as), fs', h')
     \<and> length h' = length h
     \<and> (\<forall>a. \<not> (a \<in> set as \<and> nextOffset (h ! a) \<le> lowest + 1) \<longrightarrow> h' ! a = h ! a)
     \<and> (\<forall>a\<in>set as. nextOffset (h ! a) \<le> lowest + 1 \<longrightarrow>
           seg_gone fs' (h' ! a) \<and> baseOffset (h' ! a) = baseOffset (h ! a)
           \<and> nextOffset (h' ! a) = nextOffset (h ! a))
     \<and> (\<forall>nm. (\<forall>a\<in>set as. nextOffset (h ! a) \<le> lowest + 1
                  \<longrightarrow> base_of nm \<noteq> baseOffset (h ! a))
           \<longrightarrow> map_of fs' nm = map_of fs nm)"
  using assms
proof (induction as arbitrary: fs h kept)
  case Nil
  show ?case by simp
next
  case (Cons a as)
  from Cons.prems have a: "a < length h" "seg_open fs (h ! a)" "a \<notin> set as"
    and das: "distinct as"
    and db: "distinct (map (\<lambda>x. baseOffset (h ! x)) as)"
    and nb: "\<forall>x\<in>set as. baseOffset (h ! x) \<noteq> baseOffset (h ! a)"
    and op: "\<forall>x\<in>set as. x < length h \<and> seg_open fs (h ! x)"
    by (auto simp: image_iff)
  have d: "deref h a = Some (h ! a)"
    using a(1) by (simp add: deref_def)
  show ?case
  proof (cases "nextOffset (h ! a) \<le> lowest + 1")
    case False
    from Cons.IH [OF das db op, of "kept @ [a]"] obtain fs' h' where
      r: "truncate_loop fs h lowest as (kept @ [a])
          = (Inr ((kept @ [a]) @ filter (\<lambda>a. \<not> nextOffset (h ! a) \<le> lowest + 1) as), fs', h')"
      and rest: "length h' = length h"
        "\<forall>x. \<not> (x \<in> set as \<and> nextOffset (h ! x) \<le> lowest + 1) \<longrightarrow> h' ! x = h ! x"
        "\<forall>x\<in>set as. nextOffset (h ! x) \<le> lowest + 1 \<longrightarrow>
           seg_gone fs' (h' ! x) \<and> baseOffset (h' ! x) = baseOffset (h ! x)
           \<and> nextOffset (h' ! x) = nextOffset (h ! x)"
        "\<forall>nm. (\<forall>x\<in>set as. nextOffset (h ! x) \<le> lowest + 1
                  \<longrightarrow> base_of nm \<noteq> baseOffset (h ! x))
           \<longrightarrow> map_of fs' nm = map_of fs nm"
      by blast
    have "truncate_loop fs h lowest (a # as) kept
        = (Inr (kept @ filter (\<lambda>a. \<not> nextOffset (h ! a) \<le> lowest + 1) (a # as)), fs', h')"
      using d False r by simp
    with rest False show ?thesis by auto
  next
    case True
    from segment_Remove_open [OF a(2)] obtain fs1 s1 where
      rm: "segment_Remove fs (h ! a) = (Inr (), fs1, s1)"
      and gone: "seg_gone fs1 s1"
      and b1: "baseOffset s1 = baseOffset (h ! a)" "nextOffset s1 = nextOffset (h ! a)"
      and fr1: "\<forall>nm. base_of nm \<noteq> baseOffset (h ! a) \<longrightarrow> map_of fs1 nm = map_of fs nm"
      by blast
    define h1 where "h1 = h[a := s1]"
    have h1: "\<forall>x\<in>set as. h1 ! x = h ! x" "length h1 = length h" "h1 ! a = s1"
      using a by (auto simp: h1_def nth_list_update)
    have db1: "distinct (map (\<lambda>x. baseOffset (h1 ! x)) as)"
      using db h1(1) by (simp cong: map_cong)
    have op1: "\<forall>x\<in>set as. x < length h1 \<and> seg_open fs1 (h1 ! x)"
    proof
      fix x assume x: "x \<in> set as"
      with nb have "baseOffset (h ! x) \<noteq> baseOffset (h ! a)" by blast
      then have "seg_open fs1 (h ! x) = seg_open fs (h ! x)"
        using fr1 by (intro seg_open_cong) simp_all
      with op x h1 show "x < length h1 \<and> seg_open fs1 (h1 ! x)" by simp
    qed
    from Cons.IH [OF das db1 op1, of kept] obtain fs' h' where
      r: "truncate_loop fs1 h1 lowest as kept
          = (Inr (kept @ filter (\<lambda>a. \<not> nextOffset (h1 ! a) \<le> lowest + 1) as), fs', h')"
      and len: "length h' = length h1"
      and same: "\<forall>x. \<not> (x \<in> set as \<and> nextOffset (h1 ! x) \<le> lowest + 1) \<longrightarrow> h' ! x = h1 ! x"
      and gn: "\<forall>x\<in>set as. nextOffset (h1 ! x) \<le> lowest + 1 \<longrightarrow>
           seg_gone fs' (h' ! x) \<and> baseOffset (h' ! x) = baseOffset (h1 ! x)
           \<and> nextOffset (h' ! x) = nextOffset (h1 ! x)"
      and fr: "\<forall>nm. (\<forall>x\<in>set as. nextOffset (h1 ! x) \<le> lowest + 1
                  \<longrightarrow> base_of nm \<noteq> baseOffset (h1 ! x))
           \<longrightarrow> map_of fs' nm = map_of fs1 nm"
      by blast
    have flt: "filter (\<lambda>a. \<not> nextOffset (h1 ! a) \<le> lowest + 1) as
        = filter (\<lambda>a. \<not> nextOffset (h ! a) \<le> lowest + 1) as"
      using h1(1) by (intro filter_cong) simp_all
    have res: "truncate_loop fs h lowest (a # as) kept
        = (Inr (kept @ filter (\<lambda>a. \<not> nextOffset (h ! a) \<le> lowest + 1) (a # as)), fs', h')"
      using d True rm r flt by (simp add: h1_def)
    have ha: "h' ! a = s1"
      using same a(3) h1(3) by auto
    have frb: "map_of fs' nm = map_of fs1 nm" if "base_of nm = baseOffset (h ! a)" for nm
    proof -
      have "\<forall>x\<in>set as. nextOffset (h1 ! x) \<le> lowest + 1
          \<longrightarrow> base_of nm \<noteq> baseOffset (h1 ! x)"
        using that nb h1(1) by (metis)
      with fr show ?thesis by blast
    qed
    have "map_of fs' (StoreFile (baseOffset s1)) = map_of fs1 (StoreFile (baseOffset s1))"
      "map_of fs' (IndexFile (baseOffset s1)) = map_of fs1 (IndexFile (baseOffset s1))"
      by (simp_all add: frb b1)
    then have ga: "seg_gone fs' s1"
      using gone seg_gone_cong by blast
    have c2: "\<forall>x. \<not> (x \<in> set (a # as) \<and> nextOffset (h ! x) \<le> lowest + 1)
        \<longrightarrow> h' ! x = h ! x"
    proof (intro allI impI)
      fix x assume x: "\<not> (x \<in> set (a # as) \<and> nextOffset (h ! x) \<le> lowest + 1)"
      with True have xa: "x \<noteq> a" by auto
      from x have "\<not> (x \<in> set as \<and> nextOffset (h1 ! x) \<le> lowest + 1)"
        using h1(1) by auto
      with same have "h' ! x = h1 ! x" by blast
      with xa show "h' ! x = h ! x" by (simp add: h1_def)
    qed
    have c3: "\<forall>x\<in>set (a # as). nextOffset (h ! x) \<le> lowest + 1 \<longrightarrow>
           seg_gone fs' (h' ! x) \<and> baseOffset (h' ! x) = baseOffset (h ! x)
           \<and> nextOffset (h' ! x) = nextOffset (h ! x)"
      using ga ha b1 gn h1(1) by auto
    have c4: "\<forall>nm. (\<forall>x\<in>set (a # as). nextOffset (h ! x) \<le> lowest + 1
                  \<longrightarrow> base_of nm \<noteq> baseOffset (h ! x))
           \<longrightarrow> map_of fs' nm = map_of fs nm"
    proof (intro allI impI)
      fix nm assume n: "\<forall>x\<in>set (a # as). nextOffset (h ! x) \<le> lowest + 1
                  \<longrightarrow> base_of nm \<noteq> baseOffset (h ! x)"
      with True have "base_of nm \<noteq> baseOffset (h ! a)" by simp
      with fr1 have e1: "map_of fs1 nm = map_of fs nm" by blast
      from n h1(1) have "\<forall>x\<in>set as. nextOffset (h1 ! x) \<le> lowest + 1
                  \<longrightarrow> base_of nm \<noteq> baseOffset (h1 ! x)" by simp
      with fr have "map_of fs' nm = map_of fs1 nm" by blast
      with e1 show "map_of fs' nm = map_of fs nm" by simp
    qed
    from res len h1(2) c2 c3 c4 show ?thesis by auto
  qed
qed

lemma demo_log_value:
  "demo_log =
     \<lparr>Dir = [(StoreFile 0, []),
             (IndexFile 0, PutUint32 0 @ PutUint64 0 @ PutUint32 1 @ PutUint64 17
                           @ replicate 12 0),
             (StoreFile 2, []),
             (IndexFile 2, PutUint32 0 @ PutUint64 0 @ replicate 24 0)],
      l_config = small_config,
      heap = [\<lparr>seg_store = \<lparr>s_name = StoreFile 0,
                   s_buf = PutUint64 9 @ PutUint64 0 @ 7 # PutUint64 9 @ PutUint64 1 @ [7],
                   s_size = 34, s_closed = False\<rparr>,
                seg_index = \<lparr>i_name = IndexFile 0, i_maplen = 36, i_size = 24,
                              i_closed = False\<rparr>,
                baseOffset = 0, nextOffset = 2, seg_config = small_config\<rparr>,
              \<lparr>seg_store = \<lparr>s_name = StoreFile 2,
                   s_buf = PutUint64 9 @ PutUint64 2 @ [7], s_size = 17, s_closed = False\<rparr>,
                seg_index = \<lparr>i_name = IndexFile 2, i_maplen = 36, i_size = 12,
                              i_closed = False\<rparr>,
                baseOffset = 2, nextOffset = 3, seg_config = small_config\<rparr>],
      segments = [0, 1], activeSegment = Some 1\<rparr>"
  by (simp add: demo_log_def demo_record_def eval_defs)

lemma demo_log_wf: "log_wf demo_log"
  by (simp add: demo_log_value log_wf_def seg_open_def)

lemma Log_Truncate_ok:
  assumes "log_wf l"
  shows "\<exists>l'. Log_Truncate l lowest = (Inr (), l')
     \<and> segments l' = filter (\<lambda>a. \<not> nextOffset (heap l ! a) \<le> lowest + 1) (segments l)
     \<and> activeSegment l' = activeSegment l \<and> l_config l' = l_config l
     \<and> length (heap l') = length (heap l)
     \<and> (\<forall>a. \<not> (a \<in> set (segments l) \<and> nextOffset (heap l ! a) \<le> lowest + 1)
           \<longrightarrow> heap l' ! a = heap l ! a)
     \<and> (\<forall>a\<in>set (segments l). nextOffset (heap l ! a) \<le> lowest + 1 \<longrightarrow>
           seg_gone (Dir l') (heap l' ! a) \<and> baseOffset (heap l' ! a) = baseOffset (heap l ! a)
           \<and> nextOffset (heap l' ! a) = nextOffset (heap l ! a))
     \<and> (\<forall>nm. (\<forall>a\<in>set (segments l). nextOffset (heap l ! a) \<le> lowest + 1
                  \<longrightarrow> base_of nm \<noteq> baseOffset (heap l ! a))
           \<longrightarrow> map_of (Dir l') nm = map_of (Dir l) nm)"
proof -
  from assms have a: "distinct (segments l)"
    "distinct (map (\<lambda>a. baseOffset (heap l ! a)) (segments l))"
    "\<forall>a\<in>set (segments l). a < length (heap l) \<and> seg_open (Dir l) (heap l ! a)"
    by (simp_all add: log_wf_def)
  from truncate_loop_ok [OF a, of lowest "[]"] obtain fs' h' where
    r: "truncate_loop (Dir l) (heap l) lowest (segments l) []
        = (Inr ([] @ filter (\<lambda>a. \<not> nextOffset (heap l ! a) \<le> lowest + 1) (segments l)),
           fs', h')"
    and rest: "length h' = length (heap l)"
      "\<forall>a. \<not> (a \<in> set (segments l) \<and> nextOffset (heap l ! a) \<le> lowest + 1)
           \<longrightarrow> h' ! a = heap l ! a"
      "\<forall>a\<in>set (segments l). nextOffset (heap l ! a) \<le> lowest + 1 \<longrightarrow>
           seg_gone fs' (h' ! a) \<and> baseOffset (h' ! a) = baseOffset (heap l ! a)
           \<and> nextOffset (h' ! a) = nextOffset (heap l ! a)"
      "\<forall>nm. (\<forall>a\<in>set (segments l). nextOffset (heap l ! a) \<le> lowest + 1
                  \<longrightarrow> base_of nm \<noteq> baseOffset (heap l ! a))
           \<longrightarrow> map_of fs' nm = map_of (Dir l) nm"
    by blast
  have "Log_Truncate l lowest
      = (Inr (), l\<lparr>Dir := fs', heap := h',
           segments := filter (\<lambda>a. \<not> nextOffset (heap l ! a) \<le> lowest + 1) (segments l)\<rparr>)"
    using r by (simp add: Log_Truncate_def)
  with rest show ?thesis by simp
qed

lemma find_segment_SomeD:
  "find_segment h off as = Inr (Some a) \<Longrightarrow>
     a \<in> set as \<and> a < length h \<and> baseOffset (h ! a) \<le> off \<and> off < nextOffset (h ! a)"
  by (induction as) (auto simp: deref_def split: if_splits)

lemma find_segment_filter:
  assumes "find_segment h off as = Inr (Some a)" and "P a"
    and "\<forall>x\<in>set as. P x \<longrightarrow> h' ! x = h ! x" and "length h' = length h"
  shows "find_segment h' off (filter P as) = Inr (Some a)"
  using assms
  by (induction as) (auto simp: deref_def split: if_splits)

lemma find_segment_None:
  assumes "\<forall>x\<in>set as. x < length h
      \<and> \<not> (baseOffset (h ! x) \<le> off \<and> off < nextOffset (h ! x))"
  shows "find_segment h off as = Inr None"
  using assms by (induction as) (auto simp: deref_def)

lemma segment_Read_cong:
  assumes "map_of fs' (i_name (seg_index s)) = map_of fs (i_name (seg_index s))"
    and "map_of fs' (s_name (seg_store s)) = map_of fs (s_name (seg_store s))"
  shows "fst (segment_Read cd fs' s off) = fst (segment_Read cd fs s off)"
  using assms
  by (auto simp add: segment_Read_def index_Read_def store_Read_def store_flush_def
      update_conv' Let_def split: sum.splits option.splits prod.splits if_splits)

lemma Log_Read_found:
  "find_segment (heap l) off (segments l) = Inr (Some a) \<Longrightarrow>
   fst (Log_Read cd l off) = fst (segment_Read cd (Dir l) (heap l ! a) off)"
  by (simp add: Log_Read_def split: prod.splits)

lemma Log_Read_ok_found:
  assumes "fst (Log_Read cd l off) = Inr r"
  shows "\<exists>a. find_segment (heap l) off (segments l) = Inr (Some a)"
  using assms
  by (auto simp add: Log_Read_def split: sum.splits option.splits)

lemma less_not_doomed:
  fixes lowest off nxt :: u64
  assumes "lowest < off" and "off < nxt"
  shows "\<not> nxt \<le> lowest + 1"
proof -
  from assms(1) have "lowest + 1 \<le> off"
    by (rule inc_le)
  with assms(2) show ?thesis by simp
qed

text \<open>
  Claim C2, as the code has it. \<open>Truncate(L)\<close> on a sound log removes exactly the
  segments with \<open>nextOffset \<le> L + 1\<close> and keeps the others in their order. Every
  offset above \<open>L\<close> that could be read before reads the same afterwards, and so does
  every offset that \<open>Read\<close> found in a segment that stays, also one at or below \<open>L\<close>
  in a segment that reaches beyond \<open>L\<close>. An offset that no remaining segment covers is
  out of range.
\<close>

theorem Log_Truncate_reads:
  assumes "log_wf l"
  shows "\<exists>l'. Log_Truncate l lowest = (Inr (), l')
     \<and> segments l' = filter (\<lambda>a. \<not> nextOffset (heap l ! a) \<le> lowest + 1) (segments l)
     \<and> (\<forall>off r. lowest < off \<and> fst (Log_Read cd l off) = Inr r
           \<longrightarrow> fst (Log_Read cd l' off) = Inr r)
     \<and> (\<forall>off a. find_segment (heap l) off (segments l) = Inr (Some a)
              \<and> \<not> nextOffset (heap l ! a) \<le> lowest + 1
           \<longrightarrow> fst (Log_Read cd l' off) = fst (Log_Read cd l off))
     \<and> (\<forall>off. (\<forall>a\<in>set (segments l').
                  \<not> (baseOffset (heap l ! a) \<le> off \<and> off < nextOffset (heap l ! a)))
           \<longrightarrow> fst (Log_Read cd l' off) = Inl (OffsetOutOfRange off))"
proof -
  let ?kept = "\<lambda>a. \<not> nextOffset (heap l ! a) \<le> lowest + 1"
  from Log_Truncate_ok [OF assms, of lowest] obtain l' where
    t: "Log_Truncate l lowest = (Inr (), l')"
    and sg: "segments l' = filter ?kept (segments l)"
    and len: "length (heap l') = length (heap l)"
    and same: "\<forall>a. \<not> (a \<in> set (segments l) \<and> nextOffset (heap l ! a) \<le> lowest + 1)
           \<longrightarrow> heap l' ! a = heap l ! a"
    and fr: "\<forall>nm. (\<forall>a\<in>set (segments l). nextOffset (heap l ! a) \<le> lowest + 1
                  \<longrightarrow> base_of nm \<noteq> baseOffset (heap l ! a))
           \<longrightarrow> map_of (Dir l') nm = map_of (Dir l) nm"
    by blast
  from assms have inj: "inj_on (\<lambda>a. baseOffset (heap l ! a)) (set (segments l))"
    and op: "\<forall>a\<in>set (segments l). a < length (heap l) \<and> seg_open (Dir l) (heap l ! a)"
    by (simp_all add: log_wf_def distinct_map)
  have gen: "fst (Log_Read cd l' off) = fst (Log_Read cd l off)"
    if f: "find_segment (heap l) off (segments l) = Inr (Some a)" and k: "?kept a" for off a
  proof -
    from find_segment_SomeD [OF f] have a: "a \<in> set (segments l)" by simp
    have "find_segment (heap l') off (filter ?kept (segments l)) = Inr (Some a)"
      using f k same len by (intro find_segment_filter) auto
    then have f': "find_segment (heap l') off (segments l') = Inr (Some a)"
      by (simp add: sg)
    have ha: "heap l' ! a = heap l ! a"
      using same k by blast
    have nm: "map_of (Dir l') nm = map_of (Dir l) nm"
      if "base_of nm = baseOffset (heap l ! a)" for nm
    proof -
      have "\<forall>x\<in>set (segments l). nextOffset (heap l ! x) \<le> lowest + 1
          \<longrightarrow> base_of nm \<noteq> baseOffset (heap l ! x)"
      proof (intro ballI impI)
        fix x assume x: "x \<in> set (segments l)" "nextOffset (heap l ! x) \<le> lowest + 1"
        with k have "x \<noteq> a" by auto
        with inj x(1) a have "baseOffset (heap l ! x) \<noteq> baseOffset (heap l ! a)"
          by (auto dest: inj_onD)
        with that show "base_of nm \<noteq> baseOffset (heap l ! x)" by simp
      qed
      with fr show ?thesis by blast
    qed
    from op a have names: "s_name (seg_store (heap l ! a)) = StoreFile (baseOffset (heap l ! a))"
      "i_name (seg_index (heap l ! a)) = IndexFile (baseOffset (heap l ! a))"
      by (auto simp: seg_open_def)
    have "fst (segment_Read cd (Dir l') (heap l ! a) off)
        = fst (segment_Read cd (Dir l) (heap l ! a) off)"
      by (intro segment_Read_cong) (simp_all add: names nm)
    then show ?thesis
      by (simp add: Log_Read_found [OF f] Log_Read_found [OF f'] ha)
  qed
  have b: "fst (Log_Read cd l' off) = Inr r"
    if "lowest < off" and r: "fst (Log_Read cd l off) = Inr r" for off r
  proof -
    from Log_Read_ok_found [OF r] obtain a where
      f: "find_segment (heap l) off (segments l) = Inr (Some a)" by blast
    from find_segment_SomeD [OF f] have "off < nextOffset (heap l ! a)" by simp
    with that(1) have "?kept a" by (rule less_not_doomed)
    with gen [OF f] r show ?thesis by simp
  qed
  have c: "fst (Log_Read cd l' off) = Inl (OffsetOutOfRange off)"
    if n: "\<forall>a\<in>set (segments l').
       \<not> (baseOffset (heap l ! a) \<le> off \<and> off < nextOffset (heap l ! a))" for off
  proof -
    have "\<forall>x\<in>set (segments l'). x < length (heap l')
      \<and> \<not> (baseOffset (heap l' ! x) \<le> off \<and> off < nextOffset (heap l' ! x))"
      using n op same len by (auto simp: sg)
    then have "find_segment (heap l') off (segments l') = Inr None"
      by (rule find_segment_None)
    then show ?thesis by (simp add: Log_Read_def)
  qed
  from t sg gen b c show ?thesis by blast
qed

lemmas trunc_defs = Log_Truncate_def segment_Remove_def segment_Close_def index_Close_def
  store_Close_def fs_remove_def Log_LowestOffset_def

theorem Log_Truncate_reads_witness:
  "log_wf demo_log \<and> (1 :: u64) < 2
   \<and> fst (Log_Read raw_codec demo_log 2) = Inr \<lparr>r_value = [7], r_offset = 2\<rparr>
   \<and> fst (Log_Truncate demo_log 1) = Inr ()
   \<and> fst (Log_Read raw_codec (snd (Log_Truncate demo_log 1)) 2)
       = Inr \<lparr>r_value = [7], r_offset = 2\<rparr>"
proof -
  have r: "fst (Log_Read raw_codec demo_log 2) = Inr \<lparr>r_value = [7], r_offset = 2\<rparr>"
    by (simp add: demo_log_value eval_defs)
  have lt: "(1 :: u64) < 2" by simp
  from Log_Truncate_reads [OF demo_log_wf, of 1 raw_codec] obtain l' where
    t: "Log_Truncate demo_log 1 = (Inr (), l')"
    and b: "\<forall>off r. 1 < off \<and> fst (Log_Read raw_codec demo_log off) = Inr r
           \<longrightarrow> fst (Log_Read raw_codec l' off) = Inr r"
    by blast
  from b lt r have "fst (Log_Read raw_codec l' 2) = Inr \<lparr>r_value = [7], r_offset = 2\<rparr>"
    by blast
  with t r lt demo_log_wf show ?thesis by simp
qed

text \<open>
  Claim C2 as it is written fails on the log of the examples: after \<open>Truncate(0)\<close>
  the first segment, which holds the offsets 0 and 1, is still there, and \<open>Read(0)\<close>
  returns its record instead of an error.
\<close>

theorem Log_Truncate_reads_counterexample:
  "fst (Log_Truncate demo_log 0) = Inr ()
   \<and> (0 :: u64) \<le> 0
   \<and> fst (Log_Read raw_codec (snd (Log_Truncate demo_log 0)) 0)
       = Inr \<lparr>r_value = [7], r_offset = 0\<rparr>"
  by (simp add: demo_log_value eval_defs trunc_defs word_le_nat_alt word_less_nat_alt)




end
